theory Spec2Isabelle
  imports Main "HOL-Library.Sublist"
begin

section \<open>JavaScript strings\<close>

text \<open>
  A JavaScript string is a sequence of UTF-16 code units and \<open>length\<close> counts code
  units. Strings are modelled as \<open>string\<close>; one \<open>char\<close> stands for one code unit
  in the range 0..255. The regular expressions and the table look-ups of the
  repository only ever test for ASCII characters.
\<close>

text \<open>
  \<open>s.replace(/c/g, r)\<close> for a pattern that is a single literal character and a
  replacement text without \<open>$\<close>: every occurrence of the character is replaced, left
  to right, and the replacement is not scanned again.
\<close>

fun replaceAll :: "char \<Rightarrow> string \<Rightarrow> string \<Rightarrow> string" where
  "replaceAll c r [] = []"
| "replaceAll c r (x # xs) =
     (if x = c then r @ replaceAll c r xs else x # replaceAll c r xs)"

text \<open>The numeric value of a code unit, and the test \<open>lo \<le> c \<le> hi\<close> of a
  character range such as \<open>[a-z]\<close>.\<close>

definition code_unit :: "char \<Rightarrow> nat" where
  "code_unit c = of_char c"

definition in_range :: "char \<Rightarrow> char \<Rightarrow> char \<Rightarrow> bool" where
  "in_range lo hi c \<longleftrightarrow> code_unit lo \<le> code_unit c \<and> code_unit c \<le> code_unit hi"

text \<open>
  \<open>s.toLowerCase()\<close> on code units 0..255: the letters \<open>A\<close>..\<open>Z\<close> and the
  Latin-1 capitals 0xC0..0xDE (without the multiplication sign 0xD7) move up by 32.
\<close>

definition toLowerCase_unit :: "char \<Rightarrow> char" where
  "toLowerCase_unit c =
     (if in_range (CHR ''A'') (CHR ''Z'') c \<or>
         (in_range (CHR 0xC0) (CHR 0xDE) c \<and> c \<noteq> CHR 0xD7)
      then char_of (code_unit c + 32) else c)"

definition toLowerCase :: "string \<Rightarrow> string" where
  "toLowerCase s = map toLowerCase_unit s"

text \<open>\<open>s.includes(k)\<close>: \<open>k\<close> occurs in \<open>s\<close> as a contiguous run.
  \<open>s.startsWith(p)\<close>: \<open>p\<close> is a prefix of \<open>s\<close>.\<close>

definition includes_str :: "string \<Rightarrow> string \<Rightarrow> bool" where
  "includes_str s k \<longleftrightarrow> sublist k s"

definition startsWith :: "string \<Rightarrow> string \<Rightarrow> bool" where
  "startsWith s p \<longleftrightarrow> prefix p s"

section \<open>Regular expressions\<close>

text \<open>
  The fragment of JavaScript regular expressions that \<open>isValidEmail\<close> uses: character
  classes, sequence, \<open>r*\<close>, \<open>r+\<close>, \<open>r?\<close> and \<open>r{0,n}\<close>. There are no
  back-references and no look-around, so \<open>/^r$/.test(s)\<close> holds exactly when the
  whole of \<open>s\<close> is a word of \<open>r\<close>. The matcher decides that by derivatives:
  \<open>deriv c r\<close> matches the words \<open>w\<close> such that \<open>r\<close> matches \<open>c # w\<close>.
  \<open>Fail\<close>, \<open>Empty\<close> and \<open>Alt\<close> only arise as derivatives.
\<close>

datatype char_class_item = Range char char | OneOf string

fun in_class :: "char_class_item list \<Rightarrow> char \<Rightarrow> bool" where
  "in_class [] c = False"
| "in_class (Range lo hi # items) c = (in_range lo hi c \<or> in_class items c)"
| "in_class (OneOf cs # items) c = (c \<in> set cs \<or> in_class items c)"

datatype regex =
    Fail
  | Empty
  | Class "char_class_item list"
  | Seq regex regex
  | Alt regex regex
  | Star regex
  | Plus regex
  | Opt regex
  | Upto nat regex

fun nullable :: "regex \<Rightarrow> bool" where
  "nullable Fail = False"
| "nullable Empty = True"
| "nullable (Class cl) = False"
| "nullable (Seq r s) = (nullable r \<and> nullable s)"
| "nullable (Alt r s) = (nullable r \<or> nullable s)"
| "nullable (Star r) = True"
| "nullable (Plus r) = nullable r"
| "nullable (Opt r) = True"
| "nullable (Upto n r) = True"

fun deriv :: "char \<Rightarrow> regex \<Rightarrow> regex" where
  "deriv c Fail = Fail"
| "deriv c Empty = Fail"
| "deriv c (Class cl) = (if in_class cl c then Empty else Fail)"
| "deriv c (Seq r s) =
     (if nullable r then Alt (Seq (deriv c r) s) (deriv c s) else Seq (deriv c r) s)"
| "deriv c (Alt r s) = Alt (deriv c r) (deriv c s)"
| "deriv c (Star r) = Seq (deriv c r) (Star r)"
| "deriv c (Plus r) = Seq (deriv c r) (Star r)"
| "deriv c (Opt r) = deriv c r"
| "deriv c (Upto n r) = (if n = 0 then Fail else Seq (deriv c r) (Upto (n - 1) r))"

fun matches :: "regex \<Rightarrow> string \<Rightarrow> bool" where
  "matches r [] = nullable r"
| "matches r (c # cs) = matches (deriv c r) cs"

section \<open>Security utilities (security.ts)\<close>

subsection \<open>isValidEmail\<close>

text \<open>
  \<^verbatim>\<open>
  const emailRegex = /^[a-zA-Z0-9.!#$%&'*+/=?^_`{|}~-]+@[a-zA-Z0-9](?:[a-zA-Z0-9-]{0,61}[a-zA-Z0-9])?
                      (?:\.[a-zA-Z0-9](?:[a-zA-Z0-9-]{0,61}[a-zA-Z0-9])?)*$/;
  return emailRegex.test(email) && email.length <= 254;
  \<close>
  \<open>label\<close> is the group \<^verbatim>\<open>[a-zA-Z0-9](?:[a-zA-Z0-9-]{0,61}[a-zA-Z0-9])?\<close>, which the
  pattern writes twice. The single quote is \<open>CHR 0x27\<close>, the backquote \<open>CHR 0x60\<close>.
\<close>

definition alnum :: "char_class_item list" where
  "alnum =
     [Range (CHR ''a'') (CHR ''z''), Range (CHR ''A'') (CHR ''Z''), Range (CHR ''0'') (CHR ''9'')]"

definition local_class :: "char_class_item list" where
  "local_class =
     alnum @ [OneOf (''.!#$%&'' @ [CHR 0x27] @ ''*+/=?^_'' @ [CHR 0x60] @ ''{|}~-'')]"

definition label :: regex where
  "label =
     Seq (Class alnum) (Opt (Seq (Upto 61 (Class (alnum @ [OneOf ''-'']))) (Class alnum)))"

definition emailRegex :: regex where
  "emailRegex =
     Seq (Plus (Class local_class))
       (Seq (Class [OneOf ''@''])
         (Seq label (Star (Seq (Class [OneOf ''.'']) label))))"

definition isValidEmail :: "string \<Rightarrow> bool" where
  "isValidEmail email \<longleftrightarrow> matches emailRegex email \<and> length email \<le> 254"

subsection \<open>sanitizeHtml\<close>

text \<open>
  \<^verbatim>\<open>
  return input.replace(/&/g, "&amp;").replace(/</g, "&lt;").replace(/>/g, "&gt;")
              .replace(/"/g, "&quot;").replace(/'/g, "&#039;");
  \<close>
  The double quote is \<open>CHR 0x22\<close> and the single quote \<open>CHR 0x27\<close>.
\<close>

definition sanitizeHtml :: "string \<Rightarrow> string" where
  "sanitizeHtml input =
     replaceAll (CHR 0x27) ''&#039;''
       (replaceAll (CHR 0x22) ''&quot;''
         (replaceAll (CHR ''>'') ''&gt;''
           (replaceAll (CHR ''<'') ''&lt;''
             (replaceAll (CHR ''&'') ''&amp;'' input))))"

subsection \<open>validatePassword\<close>

text \<open>
  The function collects every violated rule in \<open>errors\<close>, in the order of the checks,
  and returns \<open>{ isValid: errors.length === 0, errors }\<close>. A test \<open>/[a-z]/.test(p)\<close>
  of an unanchored one-character class holds when some code unit of \<open>p\<close> is in the
  class. The class of the symbol check is
  \<^verbatim>\<open>[!@#$%^&*()_+\-=\[\]{};':"\\|,.<>\/?]\<close>. The letters with accents of the messages
  are written by their code units (0xE8, 0xE9).
\<close>

record validation =
  isValid :: bool
  errors :: "string list"

definition passwordSymbols :: string where
  "passwordSymbols =
     ''!@#$%^&*()_+-=[]{};'' @ [CHR 0x27] @ '':'' @ [CHR 0x22, CHR 0x5C] @ ''|,.<>/?''"

definition commonPasswords :: "string list" where
  "commonPasswords = [''password'', ''123456'', ''admin'', ''password123'', ''qwerty'']"

definition msg_too_short :: string where
  "msg_too_short = ''Le mot de passe doit contenir au moins 8 caract'' @ [CHR 0xE8] @ ''res''"

definition msg_too_long :: string where
  "msg_too_long =
     ''Le mot de passe ne peut pas d'' @ [CHR 0xE9] @ ''passer 128 caract'' @ [CHR 0xE8] @ ''res''"

definition validatePassword :: "string \<Rightarrow> validation" where
  "validatePassword password =
     (let errors = [];
          errors = (if length password < 8 then errors @ [msg_too_short] else errors);
          errors = (if length password > 128 then errors @ [msg_too_long] else errors);
          errors = (if \<not> list_ex (in_range (CHR ''a'') (CHR ''z'')) password
                    then errors @ [''Le mot de passe doit contenir au moins une minuscule'']
                    else errors);
          errors = (if \<not> list_ex (in_range (CHR ''A'') (CHR ''Z'')) password
                    then errors @ [''Le mot de passe doit contenir au moins une majuscule'']
                    else errors);
          errors = (if \<not> list_ex (in_range (CHR ''0'') (CHR ''9'')) password
                    then errors @ [''Le mot de passe doit contenir au moins un chiffre'']
                    else errors);
          errors = (if \<not> list_ex (\<lambda>c. c \<in> set passwordSymbols) password
                    then errors @ [''Le mot de passe doit contenir au moins un caract''
                                   @ [CHR 0xE8] @ ''re sp'' @ [CHR 0xE9] @ ''cial'']
                    else errors);
          errors = (if toLowerCase password \<in> set commonPasswords
                    then errors @ [''Ce mot de passe est trop commun'']
                    else errors)
      in \<lparr>isValid = (length errors = 0), errors = errors\<rparr>)"

subsection \<open>checkRateLimit\<close>

text \<open>
  \<open>rateLimitStore\<close> is a module-level \<open>Map\<close> from identifiers to
  \<open>{ count, resetTime }\<close>. The model passes the store and the value of \<open>Date.now()\<close>
  in, and returns the result with the store after the call. \<open>data.count++\<close> changes
  the object held by the map, which is the update of the entry here. Times and counts
  are integers (milliseconds).
\<close>

record rate_entry =
  count :: int
  resetTime :: int

type_synonym rateLimitStore = "string \<rightharpoonup> rate_entry"

definition checkRateLimit ::
  "int \<Rightarrow> string \<Rightarrow> int \<Rightarrow> int \<Rightarrow> rateLimitStore \<Rightarrow> bool \<times> rateLimitStore" where
  "checkRateLimit now identifier maxAttempts windowMs store =
     (case store identifier of
        None \<Rightarrow> (True, store(identifier \<mapsto> \<lparr>count = 1, resetTime = now + windowMs\<rparr>))
      | Some data \<Rightarrow>
          if now > resetTime data
          then (True, store(identifier \<mapsto> \<lparr>count = 1, resetTime = now + windowMs\<rparr>))
          else if count data \<ge> maxAttempts then (False, store)
          else (True, store(identifier \<mapsto> data\<lparr>count := count data + 1\<rparr>)))"

text \<open>Successive calls for one identifier, at the given times: the results in order,
  and the store after the last call.\<close>

fun checkRateLimit_calls ::
  "string \<Rightarrow> int \<Rightarrow> int \<Rightarrow> int list \<Rightarrow> rateLimitStore \<Rightarrow> bool list \<times> rateLimitStore" where
  "checkRateLimit_calls identifier maxAttempts windowMs [] store = ([], store)"
| "checkRateLimit_calls identifier maxAttempts windowMs (now # nows) store =
     (let (r, store') = checkRateLimit now identifier maxAttempts windowMs store;
          (rs, store'') = checkRateLimit_calls identifier maxAttempts windowMs nows store'
      in (r # rs, store''))"

section \<open>Error messages (error-messages.ts)\<close>

text \<open>
  The argument of \<open>mapErrorMessage\<close> is a string, an object with optional
  \<open>message\<close> and \<open>code\<close>, \<open>null\<close> or \<open>undefined\<close>;
  \<open>error_message\<close> is
  \<^verbatim>\<open>typeof error === 'string' ? error : error?.message\<close>, with \<open>None\<close> for
  \<open>undefined\<close>. The test \<open>!message\<close> holds for \<open>undefined\<close> and for the empty
  string. The function returns the text for the user; the second component of the
  result lists the messages handed to \<open>console.warn\<close>. The \<open>if\<close> statements are
  kept in the order of the source.
\<close>

datatype auth_error =
    ErrorString string
  | ErrorObject "string option" "string option"
  | ErrorNull
  | ErrorUndefined

fun error_message :: "auth_error \<Rightarrow> string option" where
  "error_message (ErrorString s) = Some s"
| "error_message (ErrorObject message code) = message"
| "error_message ErrorNull = None"
| "error_message ErrorUndefined = None"

definition mapErrorMessage :: "auth_error \<Rightarrow> string \<times> string list" where
  "mapErrorMessage error =
     (case error_message error of
        None \<Rightarrow> (''Une erreur inconnue est survenue.'', [])
      | Some message \<Rightarrow>
          if message = [] then (''Une erreur inconnue est survenue.'', [])
          else if message = ''Invalid email or password'' \<or>
                 message = ''Invalid credentials''
          then (''Email ou mot de passe incorrect.'', [])
          else if message = ''Email not verified''
          then (''Veuillez v'' @ [CHR 0xE9]
                  @ ''rifier votre adresse email avant de vous connecter.'', [])
          else if message = ''Account banned''
          then (''Ce compte est banni.'', [])
          else if message = ''User not found''
          then (''Utilisateur introuvable.'', [])
          else if message = ''Email already exists'' \<or>
                 message = ''Sign-up attempt for existing email''
          then (''Cet email est d'' @ [CHR 0xE9] @ ''j'' @ [CHR 0xE0] @ '' utilis''
                  @ [CHR 0xE9] @ ''. Connectez-vous ou v'' @ [CHR 0xE9]
                  @ ''rifiez vos emails.'', [])
          else if message = ''Username already exists''
          then (''Ce nom d'utilisateur est d'' @ [CHR 0xE9] @ ''j'' @ [CHR 0xE0]
                  @ '' pris. Choisissez-en un autre.'', [])
          else if message = ''Password too short''
          then (''Mot de passe trop court (minimum 8 caract'' @ [CHR 0xE8] @ ''res).'', [])
          else if message = ''Invalid email''
          then (''Adresse email invalide.'', [])
          else if message = ''Missing required field''
          then (''Un champ requis est manquant.'', [])
          else if message = ''Invalid OTP'' \<or>
                 message = ''Invalid verification code''
          then (''Code de v'' @ [CHR 0xE9] @ ''rification invalide.'', [])
          else if message = ''OTP expired'' \<or>
                 message = ''Verification code expired''
          then (''Code de v'' @ [CHR 0xE9] @ ''rification expir'' @ [CHR 0xE9]
                  @ ''. Demandez un nouveau code.'', [])
          else if message = ''Too many OTP attempts''
          then (''Trop de tentatives. Veuillez patienter avant de r'' @ [CHR 0xE9]
                  @ ''essayer.'', [])
          else if message = ''You can only send a verification email to an unverified email''
          then (''Impossible de renvoyer l'email : cette adresse est d'' @ [CHR 0xE9]
                  @ ''j'' @ [CHR 0xE0] @ '' v'' @ [CHR 0xE9] @ ''rifi'' @ [CHR 0xE9]
                  @ ''e ou n'existe pas.'', [])
          else if message = ''Password reset token expired''
          then (''Le lien de r'' @ [CHR 0xE9] @ ''initialisation a expir'' @ [CHR 0xE9]
                  @ ''. Demandez un nouveau lien.'', [])
          else if message = ''Invalid password reset token''
          then (''Lien de r'' @ [CHR 0xE9] @ ''initialisation invalide.'', [])
          else if includes_str message ''rate limit'' \<or>
                 includes_str message ''too many requests''
          then (''Trop de tentatives. Veuillez patienter quelques minutes.'', [])
          else if includes_str message ''network'' \<or>
                 includes_str message ''fetch''
          then (''Erreur de connexion. V'' @ [CHR 0xE9]
                  @ ''rifiez votre connexion internet.'', [])
          else if includes_str message ''server'' \<or>
                 includes_str message ''500''
          then (''Erreur serveur temporaire. Veuillez r'' @ [CHR 0xE9]
                  @ ''essayer dans quelques instants.'', [])
          else if message = ''Organization not found''
          then (''Organisation introuvable.'', [])
          else if message = ''Organization already exists''
          then (''Cette organisation existe d'' @ [CHR 0xE9] @ ''j'' @ [CHR 0xE0] @ ''.'', [])
          else if message = ''Invalid invitation''
          then (''Invitation invalide ou expir'' @ [CHR 0xE9] @ ''e.'', [])
          else if message = ''User already in organization''
          then (''Vous '' @ [CHR 0xEA] @ ''tes d'' @ [CHR 0xE9] @ ''j'' @ [CHR 0xE0]
                  @ '' membre de cette organisation.'', [])
          else (''Une erreur est survenue. Veuillez r'' @ [CHR 0xE9] @ ''essayer.'', [message]))"


section \<open>Request gate (middleware/auth.ts)\<close>

subsection \<open>encodeURIComponent\<close>

text \<open>
  The built-in \<open>encodeURIComponent\<close>: the letters, the digits and
  \<^verbatim>\<open>- _ . ! ~ * ' ( )\<close> are kept, every other code unit is written as the bytes
  of its UTF-8 encoding, each byte as \<open>%\<close> and two capital hexadecimal digits. Code
  units below 0x80 are one byte; those in 0x80..0xFF are two.
\<close>

definition uri_unreserved :: "char \<Rightarrow> bool" where
  "uri_unreserved c \<longleftrightarrow>
     in_range (CHR ''A'') (CHR ''Z'') c \<or> in_range (CHR ''a'') (CHR ''z'') c \<or>
     in_range (CHR ''0'') (CHR ''9'') c \<or> c \<in> set (''-_.!~*'' @ [CHR 0x27] @ ''()'')"

definition hex_digit :: "nat \<Rightarrow> char" where
  "hex_digit n = ''0123456789ABCDEF'' ! n"

definition percent_byte :: "nat \<Rightarrow> string" where
  "percent_byte b = [CHR ''%'', hex_digit (b div 16), hex_digit (b mod 16)]"

definition utf8_bytes :: "nat \<Rightarrow> nat list" where
  "utf8_bytes n = (if n < 0x80 then [n] else [0xC0 + n div 64, 0x80 + n mod 64])"

definition encode_unit :: "char \<Rightarrow> string" where
  "encode_unit c =
     (if uri_unreserved c then [c] else concat (map percent_byte (utf8_bytes (code_unit c))))"

definition encodeURIComponent :: "string \<Rightarrow> string" where
  "encodeURIComponent s = concat (map encode_unit s)"

subsection \<open>Responses and headers\<close>

text \<open>
  A \<open>Response\<close> has a status, a body (\<open>None\<close> for \<open>null\<close>) and headers. Header
  names are case-insensitive: the \<open>Headers\<close> object keeps them in lower case, so
  \<open>set\<close> replaces a header written in any case and \<open>get\<close> finds it. The headers
  of a response carry a guard: those of a response made by \<open>new Response\<close> can be
  changed, those of a response made by \<open>Response.redirect\<close> or received from
  \<open>fetch\<close> are immutable, and \<open>set\<close> on them throws a \<open>TypeError\<close>.
\<close>

definition header_name :: "string \<Rightarrow> string" where
  "header_name name =
     map (\<lambda>c. if in_range (CHR ''A'') (CHR ''Z'') c then char_of (code_unit c + 32) else c) name"

record response =
  status :: nat
  body :: "string option"
  headers :: "string \<rightharpoonup> string"
  headers_immutable :: bool

datatype fault = Fault string

text \<open>Writing a header, as the constructor does when it fills the headers.\<close>

definition headers_fill :: "string \<Rightarrow> string \<Rightarrow> response \<Rightarrow> response" where
  "headers_fill name v r = r\<lparr>headers := (headers r)(header_name name \<mapsto> v)\<rparr>"

text \<open>\<open>response.headers.set(name, v)\<close>\<close>

definition headers_set :: "string \<Rightarrow> string \<Rightarrow> response \<Rightarrow> fault + response" where
  "headers_set name v r =
     (if headers_immutable r then Inl (Fault ''TypeError: immutable'')
      else Inr (headers_fill name v r))"

definition headers_get :: "response \<Rightarrow> string \<Rightarrow> string option" where
  "headers_get r name = headers r (header_name name)"

text \<open>\<open>new Response(body, { status, headers })\<close>\<close>

definition new_Response :: "string option \<Rightarrow> nat \<Rightarrow> (string \<times> string) list \<Rightarrow> response" where
  "new_Response b st hs =
     fold (\<lambda>(name, v). headers_fill name v) hs
       \<lparr>status = st, body = b, headers = Map.empty, headers_immutable = False\<rparr>"

subsection \<open>onRequest\<close>

text \<open>
  \<open>auth.api.getSession\<close> and \<open>next\<close> belong to the framework. Each either throws
  (\<open>Inl\<close>) or returns (\<open>Inr\<close>): \<open>getSession\<close> returns \<open>null\<close> or a user with
  a session, \<open>next\<close> returns the response of the page. \<open>onRequest\<close> takes both
  outcomes, \<open>url.pathname\<close> and \<open>process.env.NODE_ENV\<close>. Of the user only the
  \<open>role\<close> is read (\<open>role?: string | null\<close>).
\<close>

record auth_user =
  role :: "string option"

record session_result =
  user :: auth_user
  session :: string

definition PRIVATE_PATHS :: "string list" where
  "PRIVATE_PATHS = [''/dashboard'', ''/profil'', ''/profile'', ''/account'', ''/admin'',
     ''/organisations'', ''/settings'', ''/api/admin'', ''/api/user'']"

definition ADMIN_PATHS :: "string list" where
  "ADMIN_PATHS = [''/admin'', ''/api/admin'']"

definition AUTH_PATHS :: "string list" where
  "AUTH_PATHS = [''/connexion'', ''/inscription'', ''/mot-de-passe-oublie'']"

text \<open>
  The inner \<open>async\<close> function that decides the response. The admin block returns
  for a missing user and for a user whose role is not \<open>admin\<close>, and falls through
  to the check of the private paths otherwise.
\<close>

definition route :: "string \<Rightarrow> auth_user option \<Rightarrow> fault + response \<Rightarrow> fault + response" where
  "route pathname locals_user next =
     (if pathname \<in> set AUTH_PATHS \<and> locals_user \<noteq> None
      then Inr (new_Response None 302 [(''Location'', ''/dashboard'')])
      else if list_ex (\<lambda>path. startsWith pathname path) ADMIN_PATHS \<and> locals_user = None
      then Inr (new_Response None 302
                 [(''Location'', ''/connexion?redirect='' @ encodeURIComponent pathname)])
      else if list_ex (\<lambda>path. startsWith pathname path) ADMIN_PATHS \<and>
              role (the locals_user) \<noteq> Some ''admin''
      then Inr (new_Response None 403 [(''Content-Type'', ''text/html'')])
      else if list_ex (\<lambda>path. startsWith pathname path) PRIVATE_PATHS \<and> locals_user = None
      then Inr (new_Response None 302
                 [(''Location'', ''/connexion?redirect='' @ encodeURIComponent pathname)])
      else next)"

definition content_security_policy :: string where
  "content_security_policy =
     ''default-src 'self'; '' @
     ''script-src 'self' 'unsafe-inline' 'unsafe-eval'; '' @
     ''style-src 'self' 'unsafe-inline'; '' @
     ''img-src 'self' data: https:; '' @
     ''font-src 'self'; '' @
     ''connect-src 'self'; '' @
     ''frame-ancestors 'none';''"

text \<open>
  The block after the inner function: the headers set on its response, one statement
  after the other. A statement that throws ends the block; \<open>and_then\<close> runs the next
  statement on the response when the ones before it have not thrown.
\<close>

definition and_then :: "fault + response \<Rightarrow> (response \<Rightarrow> fault + response) \<Rightarrow> fault + response" where
  "and_then x f = (case x of Inl error \<Rightarrow> Inl error | Inr response \<Rightarrow> f response)"

definition add_security_headers :: "string option \<Rightarrow> response \<Rightarrow> fault + response" where
  "add_security_headers node_env response =
     (let result = headers_set ''X-Frame-Options'' ''DENY'' response;
          result = and_then result (headers_set ''X-Content-Type-Options'' ''nosniff'');
          result = and_then result
                     (headers_set ''Referrer-Policy'' ''strict-origin-when-cross-origin'');
          result = and_then result (headers_set ''X-XSS-Protection'' ''1; mode=block'');
          result = and_then result
                     (headers_set ''Content-Security-Policy'' content_security_policy)
      in if node_env = Some ''production''
         then and_then result
                (headers_set ''Strict-Transport-Security''
                   ''max-age=31536000; includeSubDomains; preload'')
         else result)"

text \<open>The response of the \<open>catch\<close> block.\<close>

definition error_response :: response where
  "error_response = new_Response None 500 [(''Content-Type'', ''text/html'')]"

text \<open>
  The \<open>try\<close> block covers the session look-up, the inner function with its call of
  \<open>next\<close>, and the block that sets the headers; a fault of any of them ends in the
  \<open>catch\<close> block, which returns \<open>error_response\<close> as it is.
\<close>

definition onRequest ::
  "fault + session_result option \<Rightarrow> string \<Rightarrow> string option \<Rightarrow> fault + response \<Rightarrow> response" where
  "onRequest getSession pathname node_env next =
     (case getSession of
        Inl error \<Rightarrow> error_response
      | Inr result \<Rightarrow>
          (let locals_user = map_option user result
           in case route pathname locals_user next of
                Inl error \<Rightarrow> error_response
              | Inr response \<Rightarrow>
                  (case add_security_headers node_env response of
                     Inl error \<Rightarrow> error_response
                   | Inr response \<Rightarrow> response)))"

section \<open>Notions used in the statements and proofs\<close>

text \<open>The five characters \<open>sanitizeHtml\<close> looks for, and the five texts it writes.\<close>

definition html_special :: "char \<Rightarrow> bool" where
  "html_special c \<longleftrightarrow>
     c = CHR ''&'' \<or> c = CHR ''<'' \<or> c = CHR ''>'' \<or> c = CHR 0x22 \<or> c = CHR 0x27"

definition entities :: "string list" where
  "entities = [''&amp;'', ''&lt;'', ''&gt;'', ''&quot;'', ''&#039;'']"

definition entity_of :: "char \<Rightarrow> string" where
  "entity_of c =
     (if c = CHR ''&'' then ''&amp;''
      else if c = CHR ''<'' then ''&lt;''
      else if c = CHR ''>'' then ''&gt;''
      else if c = CHR 0x22 then ''&quot;''
      else if c = CHR 0x27 then ''&#039;''
      else [c])"

text \<open>Every ampersand of a text starts one of the five entities.\<close>

definition amp_escaped :: "string \<Rightarrow> bool" where
  "amp_escaped out \<longleftrightarrow>
     (\<forall>i<length out. out ! i = CHR ''&'' \<longrightarrow> (\<exists>e\<in>set entities. prefix e (drop i out)))"

text \<open>
  A domain that is one label without a dot: 1 to 63 letters, digits and hyphens,
  beginning and ending with a letter or a digit.
\<close>

definition single_label :: "string \<Rightarrow> bool" where
  "single_label d \<longleftrightarrow>
     d \<noteq> [] \<and> length d \<le> 63 \<and> in_class alnum (hd d) \<and> in_class alnum (last d) \<and>
     list_all (in_class (alnum @ [OneOf ''-''])) d"

text \<open>
  The messages that \<open>mapErrorMessage\<close> compares with \<open>===\<close> and the keywords it
  looks for with \<open>includes\<close>. An argument is unmatched when it carries no message or
  its message is none of the former and contains none of the latter.
\<close>

definition exact_messages :: "string list" where
  "exact_messages =
     [''Invalid email or password'',
      ''Invalid credentials'',
      ''Email not verified'',
      ''Account banned'',
      ''User not found'',
      ''Email already exists'',
      ''Sign-up attempt for existing email'',
      ''Username already exists'',
      ''Password too short'',
      ''Invalid email'',
      ''Missing required field'',
      ''Invalid OTP'',
      ''Invalid verification code'',
      ''OTP expired'',
      ''Verification code expired'',
      ''Too many OTP attempts'',
      ''You can only send a verification email to an unverified email'',
      ''Password reset token expired'',
      ''Invalid password reset token'',
      ''Organization not found'',
      ''Organization already exists'',
      ''Invalid invitation'',
      ''User already in organization'']"

definition keyword_list :: "string list" where
  "keyword_list = [''rate limit'', ''too many requests'', ''network'', ''fetch'', ''server'', ''500'']"

definition unmatched :: "auth_error \<Rightarrow> bool" where
  "unmatched error \<longleftrightarrow>
     (case error_message error of
        None \<Rightarrow> True
      | Some message \<Rightarrow>
          message \<notin> set exact_messages \<and> \<not> list_ex (includes_str message) keyword_list)"

text \<open>The fixed security headers of a response.\<close>

definition security_headers :: "response \<Rightarrow> bool" where
  "security_headers r \<longleftrightarrow>
     headers_get r ''X-Frame-Options'' = Some ''DENY'' \<and>
     headers_get r ''X-Content-Type-Options'' = Some ''nosniff'' \<and>
     headers_get r ''Referrer-Policy'' = Some ''strict-origin-when-cross-origin'' \<and>
     headers_get r ''X-XSS-Protection'' = Some ''1; mode=block'' \<and>
     (case headers_get r ''Content-Security-Policy'' of
        None \<Rightarrow> False
      | Some csp \<Rightarrow> includes_str csp (''frame-ancestors '' @ [CHR 0x27] @ ''none'' @ [CHR 0x27]))"

text \<open>The value of a hexadecimal digit, the inverse of \<open>hex_digit\<close>.\<close>

definition hex_value :: "char \<Rightarrow> nat" where
  "hex_value c =
     (if in_range (CHR ''0'') (CHR ''9'') c then code_unit c - 48 else code_unit c - 55)"

section \<open>Properties\<close>

subsection \<open>The sanitizer\<close>

text \<open>
  The five passes of \<open>sanitizeHtml\<close> amount to replacing every code unit by
  \<open>entity_of\<close> of it: the entities written by an earlier pass contain none of the
  characters a later pass looks for.
\<close>

lemma replaceAll_append:
  "replaceAll c r (xs @ ys) = replaceAll c r xs @ replaceAll c r ys"
  by (induction xs) simp_all

lemma sanitizeHtml_Nil: "sanitizeHtml [] = []"
  by (simp add: sanitizeHtml_def)

lemma sanitizeHtml_Cons: "sanitizeHtml (x # xs) = entity_of x @ sanitizeHtml xs"
  by (simp add: sanitizeHtml_def entity_of_def replaceAll_append)

lemma entity_of_safe: "\<not> html_special c \<Longrightarrow> entity_of c = [c]"
  by (simp add: entity_of_def html_special_def)

lemma entity_of_special: "html_special c \<Longrightarrow> entity_of c \<in> set entities"
  by (auto simp add: entity_of_def html_special_def entities_def)

lemma entity_shape: "e \<in> set entities \<Longrightarrow> \<exists>t. e = CHR ''&'' # t \<and> (\<forall>c\<in>set t. \<not> html_special c) \<and> 3 \<le> length t"
  by (auto simp add: entities_def html_special_def)

lemma set_sanitizeHtml_literal:
  "c \<in> set (sanitizeHtml s) \<Longrightarrow> html_special c \<Longrightarrow> c = CHR ''&''"
proof (induction s)
  case Nil
  then show ?case by (simp add: sanitizeHtml_Nil)
next
  case (Cons x xs)
  from Cons.prems(1) have "c \<in> set (entity_of x) \<or> c \<in> set (sanitizeHtml xs)"
    by (simp add: sanitizeHtml_Cons)
  then show ?case
  proof
    assume c: "c \<in> set (entity_of x)"
    show ?thesis
    proof (cases "html_special x")
      case True
      then obtain t where "entity_of x = CHR ''&'' # t" "\<forall>c\<in>set t. \<not> html_special c"
        using entity_shape [OF entity_of_special] by blast
      with c Cons.prems(2) show ?thesis by auto
    next
      case False
      with c Cons.prems(2) show ?thesis by (simp add: entity_of_safe)
    qed
  next
    assume "c \<in> set (sanitizeHtml xs)"
    with Cons show ?thesis by blast
  qed
qed

lemma amp_escaped_Nil: "amp_escaped []"
  by (simp add: amp_escaped_def)

lemma amp_escaped_plain:
  assumes "c \<noteq> CHR ''&''" and "amp_escaped out"
  shows "amp_escaped (c # out)"
  unfolding amp_escaped_def
proof (intro allI impI)
  fix i
  assume i: "i < length (c # out)" and a: "(c # out) ! i = CHR ''&''"
  with assms(1) obtain j where j: "i = Suc j" by (cases i) auto
  with i a have "j < length out" "out ! j = CHR ''&''" by simp_all
  with assms(2) obtain e where "e \<in> set entities" "prefix e (drop j out)"
    unfolding amp_escaped_def by blast
  with j show "\<exists>e\<in>set entities. prefix e (drop i (c # out))" by auto
qed

lemma amp_escaped_entity:
  assumes e: "e \<in> set entities" and out: "amp_escaped out"
  shows "amp_escaped (e @ out)"
proof -
  from entity_shape [OF e] obtain t where t: "e = CHR ''&'' # t" "\<forall>c\<in>set t. \<not> html_special c"
    by blast
  have tail: "amp_escaped (t @ out)" using t(2)
  proof (induction t)
    case Nil
    then show ?case using out by simp
  next
    case (Cons a t)
    then have "a \<noteq> CHR ''&''" by (auto simp add: html_special_def)
    with Cons show ?case by (simp add: amp_escaped_plain)
  qed
  show ?thesis
    unfolding amp_escaped_def
  proof (intro allI impI)
    fix i
    assume i: "i < length (e @ out)" and a: "(e @ out) ! i = CHR ''&''"
    show "\<exists>e'\<in>set entities. prefix e' (drop i (e @ out))"
    proof (cases i)
      case 0
      then show ?thesis using e by (intro bexI [of _ e]) simp_all
    next
      case (Suc j)
      with i a t(1) have "j < length (t @ out)" "(t @ out) ! j = CHR ''&''" by simp_all
      with tail obtain e' where "e' \<in> set entities" "prefix e' (drop j (t @ out))"
        unfolding amp_escaped_def by blast
      with Suc t(1) show ?thesis by auto
    qed
  qed
qed

lemma amp_escaped_sanitizeHtml: "amp_escaped (sanitizeHtml s)"
proof (induction s)
  case Nil
  then show ?case by (simp add: sanitizeHtml_Nil amp_escaped_Nil)
next
  case (Cons x xs)
  show ?case
  proof (cases "html_special x")
    case True
    then show ?thesis
      using amp_escaped_entity [OF entity_of_special Cons.IH] by (simp add: sanitizeHtml_Cons)
  next
    case False
    then have "x \<noteq> CHR ''&''" by (auto simp add: html_special_def)
    with False Cons.IH show ?thesis
      by (simp add: sanitizeHtml_Cons entity_of_safe amp_escaped_plain)
  qed
qed

lemma length_entity_of: "length (entity_of c) \<ge> 1"
  by (simp add: entity_of_def)

lemma length_entity_of_special: "html_special c \<Longrightarrow> length (entity_of c) > 1"
  by (auto simp add: entity_of_def html_special_def)

lemma length_sanitizeHtml_ge: "length s \<le> length (sanitizeHtml s)"
proof (induction s)
  case Nil
  then show ?case by simp
next
  case (Cons x xs)
  with length_entity_of [of x] show ?case by (simp add: sanitizeHtml_Cons)
qed

lemma length_sanitizeHtml_gt:
  "\<exists>c\<in>set s. html_special c \<Longrightarrow> length s < length (sanitizeHtml s)"
proof (induction s)
  case Nil
  then show ?case by simp
next
  case (Cons x xs)
  show ?case
  proof (cases "html_special x")
    case True
    with length_entity_of_special [of x] length_sanitizeHtml_ge [of xs]
    show ?thesis by (simp add: sanitizeHtml_Cons)
  next
    case False
    with Cons.prems have "\<exists>c\<in>set xs. html_special c" by auto
    with Cons.IH length_entity_of [of x] show ?thesis by (simp add: sanitizeHtml_Cons)
  qed
qed

lemma amp_in_sanitizeHtml:
  "\<exists>c\<in>set s. html_special c \<Longrightarrow> CHR ''&'' \<in> set (sanitizeHtml s)"
proof (induction s)
  case Nil
  then show ?case by simp
next
  case (Cons x xs)
  show ?case
  proof (cases "html_special x")
    case True
    then obtain t where "entity_of x = CHR ''&'' # t"
      using entity_shape [OF entity_of_special] by blast
    then show ?thesis by (simp add: sanitizeHtml_Cons)
  next
    case False
    with Cons.prems have "\<exists>c\<in>set xs. html_special c" by auto
    with Cons.IH show ?thesis by (simp add: sanitizeHtml_Cons)
  qed
qed

text \<open>
  Claim C6. For every input string \<open>s\<close>, \<open>sanitizeHtml s\<close> is defined (the function
  is total), contains no literal \<open><\<close>, \<open>>\<close>, double quote or single quote, and
  every \<open>&\<close> of the output is the first character of one of the escape sequences
  \<open>&amp;\<close>, \<open>&lt;\<close>, \<open>&gt;\<close>, \<open>&quot;\<close>, \<open>&#039;\<close>.
\<close>

theorem sanitizeHtml_no_literal_specials:
  "CHR ''<'' \<notin> set (sanitizeHtml s) \<and> CHR ''>'' \<notin> set (sanitizeHtml s) \<and>
   CHR 0x22 \<notin> set (sanitizeHtml s) \<and> CHR 0x27 \<notin> set (sanitizeHtml s) \<and>
   (\<forall>i<length (sanitizeHtml s). sanitizeHtml s ! i = CHR ''&'' \<longrightarrow>
      (\<exists>e\<in>set [''&amp;'', ''&lt;'', ''&gt;'', ''&quot;'', ''&#039;'']. prefix e (drop i (sanitizeHtml s))))"
proof -
  have "c \<notin> set (sanitizeHtml s)" if "html_special c" "c \<noteq> CHR ''&''" for c
    using that set_sanitizeHtml_literal by blast
  then have "CHR ''<'' \<notin> set (sanitizeHtml s)" "CHR ''>'' \<notin> set (sanitizeHtml s)"
    "CHR 0x22 \<notin> set (sanitizeHtml s)" "CHR 0x27 \<notin> set (sanitizeHtml s)"
    by (simp_all add: html_special_def)
  moreover have "\<forall>i<length (sanitizeHtml s). sanitizeHtml s ! i = CHR ''&'' \<longrightarrow>
      (\<exists>e\<in>set [''&amp;'', ''&lt;'', ''&gt;'', ''&quot;'', ''&#039;'']. prefix e (drop i (sanitizeHtml s)))"
    using amp_escaped_sanitizeHtml [of s] unfolding amp_escaped_def entities_def by blast
  ultimately show ?thesis by blast
qed

theorem sanitizeHtml_no_literal_specials_witness:
  "CHR ''<'' \<notin> set (sanitizeHtml ''<&'') \<and> (4 < length (sanitizeHtml ''<&'') \<and> sanitizeHtml ''<&'' ! 4 = CHR ''&'') \<and>
      (\<exists>e\<in>set [''&amp;'', ''&lt;'', ''&gt;'', ''&quot;'', ''&#039;'']. prefix e (drop 4 (sanitizeHtml ''<&'')))"
proof -
  have h: "4 < length (sanitizeHtml ''<&'') \<and> sanitizeHtml ''<&'' ! 4 = CHR ''&''"
    by (simp add: sanitizeHtml_def)
  with sanitizeHtml_no_literal_specials [of "''<&''"] show ?thesis by blast
qed

text \<open>
  Claim C7. \<open>sanitizeHtml\<close> is not idempotent: for every string containing at least
  one of the five special characters the second pass changes the result of the first,
  and the double-escaped outputs of \<open>&\<close> and \<open><\<close> are \<open>&amp;amp;\<close> and
  \<open>&amp;lt;\<close>.
\<close>

theorem sanitizeHtml_not_idempotent:
  "(\<forall>s. (\<exists>c\<in>set s. c = CHR ''&'' \<or> c = CHR ''<'' \<or> c = CHR ''>'' \<or> c = CHR 0x22 \<or> c = CHR 0x27)
        \<longrightarrow> sanitizeHtml (sanitizeHtml s) \<noteq> sanitizeHtml s) \<and>
   sanitizeHtml (sanitizeHtml ''&'') = ''&amp;amp;'' \<and>
   sanitizeHtml (sanitizeHtml ''<'') = ''&amp;lt;''"
proof (intro conjI allI impI)
  fix s
  assume "\<exists>c\<in>set s. c = CHR ''&'' \<or> c = CHR ''<'' \<or> c = CHR ''>'' \<or> c = CHR 0x22 \<or> c = CHR 0x27"
  then have "\<exists>c\<in>set s. html_special c" by (simp add: html_special_def)
  then have "CHR ''&'' \<in> set (sanitizeHtml s)" by (rule amp_in_sanitizeHtml)
  then have "\<exists>c\<in>set (sanitizeHtml s). html_special c" by (auto simp add: html_special_def)
  then have "length (sanitizeHtml s) < length (sanitizeHtml (sanitizeHtml s))"
    by (rule length_sanitizeHtml_gt)
  then show "sanitizeHtml (sanitizeHtml s) \<noteq> sanitizeHtml s" by auto
next
  show "sanitizeHtml (sanitizeHtml ''&'') = ''&amp;amp;''" by (simp add: sanitizeHtml_def)
next
  show "sanitizeHtml (sanitizeHtml ''<'') = ''&amp;lt;''" by (simp add: sanitizeHtml_def)
qed

theorem sanitizeHtml_not_idempotent_witness:
  "(\<exists>c\<in>set ''a>b''. c = CHR ''&'' \<or> c = CHR ''<'' \<or> c = CHR ''>'' \<or> c = CHR 0x22 \<or> c = CHR 0x27) \<and>
   sanitizeHtml (sanitizeHtml ''a>b'') \<noteq> sanitizeHtml ''a>b''"
proof -
  have h: "\<exists>c\<in>set ''a>b''. c = CHR ''&'' \<or> c = CHR ''<'' \<or> c = CHR ''>'' \<or> c = CHR 0x22 \<or> c = CHR 0x27"
    by simp
  with sanitizeHtml_not_idempotent show ?thesis by blast
qed

text \<open>
  Claim C10. \<open>sanitizeHtml\<close> is the identity on every string that contains none of
  the five special characters.
\<close>

theorem sanitizeHtml_identity_on_safe:
  "\<forall>c\<in>set s. c \<noteq> CHR ''&'' \<and> c \<noteq> CHR ''<'' \<and> c \<noteq> CHR ''>'' \<and> c \<noteq> CHR 0x22 \<and> c \<noteq> CHR 0x27
   \<Longrightarrow> sanitizeHtml s = s"
proof (induction s)
  case Nil
  then show ?case by (simp add: sanitizeHtml_Nil)
next
  case (Cons x xs)
  then have "\<not> html_special x" by (simp add: html_special_def)
  with Cons show ?case by (simp add: sanitizeHtml_Cons entity_of_safe)
qed

theorem sanitizeHtml_identity_on_safe_witness:
  "sanitizeHtml ''Hello World!'' = ''Hello World!''"
proof -
  have h: "\<forall>c\<in>set ''Hello World!''.
     c \<noteq> CHR ''&'' \<and> c \<noteq> CHR ''<'' \<and> c \<noteq> CHR ''>'' \<and> c \<noteq> CHR 0x22 \<and> c \<noteq> CHR 0x27"
    by simp
  show ?thesis by (rule sanitizeHtml_identity_on_safe [OF h])
qed

subsection \<open>Password validation\<close>

lemma in_set_push:
  "x \<in> set (if b then es @ [m] else es) \<longleftrightarrow> x \<in> set es \<or> (b \<and> x = m)"
  by auto

lemma validatePassword_errors:
  "length password < 8 \<Longrightarrow> msg_too_short \<in> set (errors (validatePassword password))"
  "length password > 128 \<Longrightarrow> msg_too_long \<in> set (errors (validatePassword password))"
  by (simp_all add: validatePassword_def Let_def in_set_push split del: if_split)

lemma validatePassword_isValid:
  "isValid (validatePassword password) \<longleftrightarrow> errors (validatePassword password) = []"
  by (simp add: validatePassword_def Let_def split del: if_split)

text \<open>
  Claim C9. For every password shorter than 8 code units, and for every password longer
  than 128, \<open>validatePassword\<close> returns \<open>isValid = false\<close> and the list of errors
  holds the message of that length rule, whatever else the password contains.
\<close>

theorem validatePassword_length_violations:
  "(length password < 8 \<longrightarrow>
      \<not> isValid (validatePassword password) \<and>
      ''Le mot de passe doit contenir au moins 8 caract'' @ [CHR 0xE8] @ ''res''
        \<in> set (errors (validatePassword password))) \<and>
   (length password > 128 \<longrightarrow>
      \<not> isValid (validatePassword password) \<and>
      ''Le mot de passe ne peut pas d'' @ [CHR 0xE9] @ ''passer 128 caract'' @ [CHR 0xE8] @ ''res''
        \<in> set (errors (validatePassword password)))"
  using validatePassword_errors [of password] validatePassword_isValid [of password]
  by (auto simp add: msg_too_short_def msg_too_long_def)

theorem validatePassword_length_violations_witness:
  "\<not> isValid (validatePassword ''Short1!'') \<and>
   ''Le mot de passe doit contenir au moins 8 caract'' @ [CHR 0xE8] @ ''res''
      \<in> set (errors (validatePassword ''Short1!'')) \<and>
   \<not> isValid (validatePassword (replicate 130 (CHR ''A'') @ ''1!'')) \<and>
   ''Le mot de passe ne peut pas d'' @ [CHR 0xE9] @ ''passer 128 caract'' @ [CHR 0xE8] @ ''res''
      \<in> set (errors (validatePassword (replicate 130 (CHR ''A'') @ ''1!'')))"
  using validatePassword_length_violations [of "''Short1!''"]
    validatePassword_length_violations [of "replicate 130 (CHR ''A'') @ ''1!''"]
  by simp

subsection \<open>Rate limiter\<close>

text \<open>
  Claim C4. With \<open>maxAttempts = 5\<close> and any \<open>windowMs\<close>, for a key whose window
  starts with the first call (no entry, or an entry whose reset time has passed): the
  first five calls made no later than the reset time \<open>t1 + windowMs\<close> return true;
  the sixth call in the window returns false and leaves the store as it is, the entry
  holding count 5 and the reset time of the first call; the next call after the reset
  time returns true and stores count 1 with a new reset time.
\<close>

theorem checkRateLimit_window:
  assumes start: "case store key of None \<Rightarrow> True | Some d \<Rightarrow> resetTime d < t1"
    and t2: "t2 \<le> t1 + windowMs" and t3: "t3 \<le> t1 + windowMs" and t4: "t4 \<le> t1 + windowMs"
    and t5: "t5 \<le> t1 + windowMs" and t6: "t6 \<le> t1 + windowMs"
    and t7: "t7 > t1 + windowMs"
  shows "fst (checkRateLimit_calls key 5 windowMs [t1, t2, t3, t4, t5] store)
           = [True, True, True, True, True] \<and>
         (let store5 = snd (checkRateLimit_calls key 5 windowMs [t1, t2, t3, t4, t5] store)
          in checkRateLimit t6 key 5 windowMs store5 = (False, store5) \<and>
             store5 key = Some \<lparr>count = 5, resetTime = t1 + windowMs\<rparr> \<and>
             fst (checkRateLimit t7 key 5 windowMs store5) = True \<and>
             snd (checkRateLimit t7 key 5 windowMs store5) key
               = Some \<lparr>count = 1, resetTime = t7 + windowMs\<rparr>)"
proof -
  define s1 where "s1 = store(key \<mapsto> \<lparr>count = 1, resetTime = t1 + windowMs\<rparr>)"
  have c1: "checkRateLimit t1 key 5 windowMs store = (True, s1)"
    using start by (cases "store key") (simp_all add: checkRateLimit_def s1_def)
  have step: "checkRateLimit t key 5 windowMs (s(key \<mapsto> \<lparr>count = n, resetTime = t1 + windowMs\<rparr>))
      = (True, s(key \<mapsto> \<lparr>count = n + 1, resetTime = t1 + windowMs\<rparr>))"
    if "t \<le> t1 + windowMs" "n < 5" for t n and s :: rateLimitStore
    using that by (simp add: checkRateLimit_def)
  define s5 where "s5 = store(key \<mapsto> \<lparr>count = 5, resetTime = t1 + windowMs\<rparr>)"
  have calls: "checkRateLimit_calls key 5 windowMs [t1, t2, t3, t4, t5] store
      = ([True, True, True, True, True], s5)"
    using t2 t3 t4 t5 by (simp add: c1 s1_def s5_def step)
  have c6: "checkRateLimit t6 key 5 windowMs s5 = (False, s5)"
    using t6 by (simp add: checkRateLimit_def s5_def)
  have c7: "checkRateLimit t7 key 5 windowMs s5
      = (True, s5(key \<mapsto> \<lparr>count = 1, resetTime = t7 + windowMs\<rparr>))"
    using t7 by (simp add: checkRateLimit_def s5_def)
  show ?thesis
    unfolding calls Let_def fst_conv snd_conv c6 c7 by (simp add: s5_def)
qed

theorem checkRateLimit_window_witness:
  "fst (checkRateLimit_calls ''test-user'' 5 60000 [1000, 1001, 1002, 1003, 61000] Map.empty)
     = [True, True, True, True, True] \<and>
   (let store5 = snd (checkRateLimit_calls ''test-user'' 5 60000
                        [1000, 1001, 1002, 1003, 61000] Map.empty)
    in checkRateLimit 61000 ''test-user'' 5 60000 store5 = (False, store5) \<and>
       store5 ''test-user'' = Some \<lparr>count = 5, resetTime = 1000 + 60000\<rparr> \<and>
       fst (checkRateLimit 61001 ''test-user'' 5 60000 store5) = True \<and>
       snd (checkRateLimit 61001 ''test-user'' 5 60000 store5) ''test-user''
         = Some \<lparr>count = 1, resetTime = 61001 + 60000\<rparr>)"
  using checkRateLimit_window [where store = Map.empty and key = "''test-user''"
      and windowMs = 60000 and ?t1.0 = 1000 and ?t2.0 = 1001 and ?t3.0 = 1002 and ?t4.0 = 1003
      and ?t5.0 = 61000 and ?t6.0 = 61000 and ?t7.0 = 61001]
  by simp

subsection \<open>Email validation\<close>

text \<open>How the matcher composes: enough to build a match from its parts.\<close>

lemma matches_Fail [simp]: "matches Fail w = False"
  by (induction w) simp_all

lemma matches_Empty [simp]: "matches Empty w \<longleftrightarrow> w = []"
  by (cases w) simp_all

lemma matches_Alt [simp]: "matches (Alt r s) w \<longleftrightarrow> matches r w \<or> matches s w"
  by (induction w arbitrary: r s) simp_all

lemma matches_Seq_nullable:
  "nullable r \<Longrightarrow> matches s v \<Longrightarrow> matches (Seq r s) v"
  by (cases v) simp_all

lemma matches_SeqI:
  "matches r u \<Longrightarrow> matches s v \<Longrightarrow> matches (Seq r s) (u @ v)"
proof (induction u arbitrary: r)
  case Nil
  then show ?case by (simp add: matches_Seq_nullable)
next
  case (Cons c u)
  then have "matches (Seq (deriv c r) s) (u @ v)" by simp
  then show ?case by simp
qed

lemma matches_Class_single: "in_class cl c \<Longrightarrow> matches (Class cl) [c]"
  by simp

lemma matches_Seq_Empty: "matches s v \<Longrightarrow> matches (Seq Empty s) v"
  by (rule matches_Seq_nullable) simp_all

lemma matches_Star_Class:
  "list_all (in_class cl) w \<Longrightarrow> matches (Star (Class cl)) w"
  by (induction w) (simp_all add: matches_Seq_Empty)

lemma matches_Plus_Class:
  "w \<noteq> [] \<Longrightarrow> list_all (in_class cl) w \<Longrightarrow> matches (Plus (Class cl)) w"
  by (cases w) (simp_all add: matches_Seq_Empty matches_Star_Class)

lemma matches_Upto_Class:
  "length w \<le> n \<Longrightarrow> list_all (in_class cl) w \<Longrightarrow> matches (Upto n (Class cl)) w"
proof (induction w arbitrary: n)
  case Nil
  then show ?case by simp
next
  case (Cons c w)
  then have "matches (Upto (n - 1) (Class cl)) w" by simp
  with Cons.prems show ?case by (simp add: matches_Seq_Empty)
qed

lemma matches_label:
  assumes "single_label d"
  shows "matches label d"
proof -
  from assms obtain a t where d: "d = a # t" and a: "in_class alnum a"
    by (cases d) (auto simp add: single_label_def)
  show ?thesis
  proof (cases t rule: rev_cases)
    case Nil
    with d a show ?thesis by (simp add: label_def)
  next
    case (snoc mid z)
    with d assms have z: "in_class alnum z" and mid: "list_all (in_class (alnum @ [OneOf ''-''])) mid"
      and len: "length mid \<le> 61"
      by (simp_all add: single_label_def)
    have "matches (Seq (Upto 61 (Class (alnum @ [OneOf ''-'']))) (Class alnum)) (mid @ [z])"
      by (intro matches_SeqI matches_Upto_Class len mid matches_Class_single z)
    then have "matches (Opt (Seq (Upto 61 (Class (alnum @ [OneOf ''-'']))) (Class alnum))) t"
      unfolding snoc by (cases "mid @ [z]") simp_all
    with a have "matches (Seq (Class alnum) (Opt (Seq (Upto 61 (Class (alnum @ [OneOf ''-'']))) (Class alnum)))) ([a] @ t)"
      by (intro matches_SeqI matches_Class_single)
    with d show ?thesis by (simp add: label_def)
  qed
qed

lemma matches_single_label_address:
  assumes "local \<noteq> []" "list_all (in_class local_class) local" "single_label d"
  shows "matches emailRegex (local @ ''@'' @ d)"
proof -
  have at: "matches (Class [OneOf ''@'']) ''@''" by simp
  have star: "matches (Star (Seq (Class [OneOf ''.'']) label)) []" by simp
  have rest: "matches (Seq label (Star (Seq (Class [OneOf ''.'']) label))) (d @ [])"
    by (intro matches_SeqI matches_label assms star)
  have "matches (Seq (Class [OneOf ''@'']) (Seq label (Star (Seq (Class [OneOf ''.'']) label))))
      (''@'' @ d @ [])"
    using at rest by (rule matches_SeqI)
  then have "matches emailRegex (local @ ''@'' @ d @ [])"
    unfolding emailRegex_def
    by (rule matches_SeqI [OF matches_Plus_Class [OF assms(1,2)]])
  then show ?thesis by simp
qed

lemmas email_defs = isValidEmail_def emailRegex_def label_def alnum_def local_class_def
  in_range_def code_unit_def

text \<open>
  Claim C8. \<open>isValidEmail\<close> accepts \<open>user@example.com\<close>; it accepts an address
  whose domain is a single label without a dot, such as \<open>user@domain\<close>; it rejects
  \<open>user@\<close> and every string longer than 254 code units, such as 250 letters
  \<open>a\<close> followed by \<open>@domain.com\<close>.
\<close>

theorem isValidEmail_examples:
  "isValidEmail ''user@example.com'' \<and> isValidEmail ''user@domain'' \<and>
   (\<forall>local d. local \<noteq> [] \<and> list_all (in_class local_class) local \<and> single_label d \<and>
       length (local @ ''@'' @ d) \<le> 254 \<longrightarrow> isValidEmail (local @ ''@'' @ d)) \<and>
   \<not> isValidEmail ''user@'' \<and>
   (\<forall>s. length s > 254 \<longrightarrow> \<not> isValidEmail s) \<and>
   \<not> isValidEmail (replicate 250 (CHR ''a'') @ ''@domain.com'')"
proof (intro conjI allI impI)
  show "isValidEmail ''user@example.com''" by (simp add: email_defs)
  show "isValidEmail ''user@domain''" by (simp add: email_defs)
  show "\<not> isValidEmail ''user@''" by (simp add: email_defs)
  show "\<not> isValidEmail s" if "length s > 254" for s
    using that by (simp add: isValidEmail_def)
  show "\<not> isValidEmail (replicate 250 (CHR ''a'') @ ''@domain.com'')"
    by (simp add: isValidEmail_def)
  show "isValidEmail (local @ ''@'' @ d)"
    if "local \<noteq> [] \<and> list_all (in_class local_class) local \<and> single_label d \<and>
       length (local @ ''@'' @ d) \<le> 254" for local d
    using that matches_single_label_address [of local d] by (simp add: isValidEmail_def)
qed

theorem isValidEmail_examples_witness:
  "isValidEmail (''admin'' @ ''@'' @ ''localhost'') \<and>
   \<not> isValidEmail (replicate 250 (CHR ''a'') @ ''@domain.com'')"
proof -
  have h: "''admin'' \<noteq> [] \<and> list_all (in_class local_class) ''admin'' \<and> single_label ''localhost'' \<and>
       length (''admin'' @ ''@'' @ ''localhost'') \<le> 254"
    by (simp add: single_label_def alnum_def local_class_def in_range_def code_unit_def)
  have l: "length (replicate 250 (CHR ''a'') @ ''@domain.com'') > 254" by simp
  from isValidEmail_examples h l show ?thesis by blast
qed

subsection \<open>Error mapper\<close>

lemma includes_str_simps:
  "includes_str s [] = True"
  "includes_str [] (k # ks) = False"
  "includes_str (x # xs) (k # ks) = (prefix (k # ks) (x # xs) \<or> includes_str xs (k # ks))"
  by (simp_all add: includes_str_def sublist_code(3))

text \<open>
  Claim C3 says that all unmatched arguments, \<open>null\<close> and empty messages included,
  get one and the same text. They do not: \<open>null\<close> and a message never seen before
  are both unmatched, and they get two different texts.
\<close>

theorem mapErrorMessage_two_fallbacks_counterexample:
  "unmatched ErrorNull \<and> unmatched (ErrorString ''some never-seen string'') \<and>
   fst (mapErrorMessage ErrorNull) = ''Une erreur inconnue est survenue.'' \<and>
   fst (mapErrorMessage (ErrorString ''some never-seen string''))
     = ''Une erreur est survenue. Veuillez r'' @ [CHR 0xE9] @ ''essayer.'' \<and>
   fst (mapErrorMessage ErrorNull) \<noteq> fst (mapErrorMessage (ErrorString ''some never-seen string''))"
  by (simp add: unmatched_def mapErrorMessage_def exact_messages_def keyword_list_def includes_str_simps)

text \<open>
  Claim C3, amended. \<open>mapErrorMessage\<close> is total, and for every unmatched argument it
  returns one of two fixed texts: the generic fallback when the argument carries a
  message that is not empty, and the text for an unknown error when the argument is
  \<open>null\<close>, \<open>undefined\<close> or carries no message or an empty one.
\<close>

theorem mapErrorMessage_fallback:
  assumes "unmatched error"
  shows "fst (mapErrorMessage error) =
           (if error_message error = None \<or> error_message error = Some []
            then ''Une erreur inconnue est survenue.''
            else ''Une erreur est survenue. Veuillez r'' @ [CHR 0xE9] @ ''essayer.'')"
proof (cases "error_message error")
  case None
  then show ?thesis by (simp add: mapErrorMessage_def)
next
  case (Some message)
  with assms have "message \<notin> set exact_messages" "\<not> list_ex (includes_str message) keyword_list"
    by (simp_all add: unmatched_def)
  then show ?thesis using Some
    by (simp add: mapErrorMessage_def exact_messages_def keyword_list_def)
qed

theorem mapErrorMessage_fallback_witness:
  "fst (mapErrorMessage (ErrorString ''database is down''))
     = ''Une erreur est survenue. Veuillez r'' @ [CHR 0xE9] @ ''essayer.'' \<and>
   fst (mapErrorMessage (ErrorObject None None)) = ''Une erreur inconnue est survenue.''"
proof -
  have u1: "unmatched (ErrorString ''database is down'')"
    by (simp add: unmatched_def exact_messages_def keyword_list_def includes_str_simps)
  have u2: "unmatched (ErrorObject None None)"
    by (simp add: unmatched_def)
  from mapErrorMessage_fallback [OF u1] mapErrorMessage_fallback [OF u2]
  show ?thesis by simp
qed

subsection \<open>Request gate\<close>

lemma header_name_values:
  "header_name ''Location'' = ''location''"
  "header_name ''Content-Type'' = ''content-type''"
  "header_name ''X-Frame-Options'' = ''x-frame-options''"
  "header_name ''X-Content-Type-Options'' = ''x-content-type-options''"
  "header_name ''Referrer-Policy'' = ''referrer-policy''"
  "header_name ''X-XSS-Protection'' = ''x-xss-protection''"
  "header_name ''Content-Security-Policy'' = ''content-security-policy''"
  "header_name ''Strict-Transport-Security'' = ''strict-transport-security''"
  by code_simp+

lemma csp_frame_ancestors:
  "includes_str content_security_policy (''frame-ancestors '' @ [CHR 0x27] @ ''none'' @ [CHR 0x27])"
  unfolding includes_str_def by code_simp

lemma headers_fill_fields [simp]:
  "status (headers_fill name v r) = status r"
  "body (headers_fill name v r) = body r"
  "headers_immutable (headers_fill name v r) = headers_immutable r"
  by (simp_all add: headers_fill_def)

lemma fold_headers_fill_fields:
  "status (fold (\<lambda>(name, v). headers_fill name v) hs r) = status r \<and>
   body (fold (\<lambda>(name, v). headers_fill name v) hs r) = body r \<and>
   headers_immutable (fold (\<lambda>(name, v). headers_fill name v) hs r) = headers_immutable r"
proof (induction hs arbitrary: r)
  case Nil
  show ?case by simp
next
  case (Cons x hs)
  obtain name v where x: "x = (name, v)" by (cases x)
  show ?case using Cons [of "headers_fill name v r"] by (simp add: x)
qed

lemma new_Response_fields [simp]:
  "status (new_Response b st hs) = st"
  "body (new_Response b st hs) = b"
  "headers_immutable (new_Response b st hs) = False"
  by (simp_all add: new_Response_def fold_headers_fill_fields)

lemma headers_set_mutable:
  "\<not> headers_immutable r \<Longrightarrow> headers_set name v r = Inr (headers_fill name v r)"
  by (simp add: headers_set_def)

lemma and_then_Inr: "and_then (Inr r) f = f r"
  by (simp add: and_then_def)

lemma headers_get_fill:
  "headers_get (headers_fill name v r) name' =
     (if header_name name' = header_name name then Some v else headers_get r name')"
  by (simp add: headers_get_def headers_fill_def)

lemma add_security_headers_immutable:
  "headers_immutable r \<Longrightarrow>
     add_security_headers node_env r = Inl (Fault ''TypeError: immutable'')"
  by (simp add: add_security_headers_def Let_def headers_set_def and_then_def)

lemma add_security_headers_mutable:
  assumes "\<not> headers_immutable r"
  shows "\<exists>r'. add_security_headers node_env r = Inr r' \<and> status r' = status r \<and>
           body r' = body r \<and> headers_get r' ''Location'' = headers_get r ''Location'' \<and>
           security_headers r'"
proof -
  define r5 where "r5 =
    headers_fill ''Content-Security-Policy'' content_security_policy
      (headers_fill ''X-XSS-Protection'' ''1; mode=block''
        (headers_fill ''Referrer-Policy'' ''strict-origin-when-cross-origin''
          (headers_fill ''X-Content-Type-Options'' ''nosniff''
            (headers_fill ''X-Frame-Options'' ''DENY'' r))))"
  define r' where "r' =
    (if node_env = Some ''production''
     then headers_fill ''Strict-Transport-Security''
            ''max-age=31536000; includeSubDomains; preload'' r5
     else r5)"
  have run: "add_security_headers node_env r = Inr r'"
    using assms
    by (simp add: add_security_headers_def Let_def headers_set_mutable and_then_Inr
        r'_def r5_def)
  have fields: "status r' = status r" "body r' = body r"
    by (simp_all add: r'_def r5_def)
  have loc: "headers_get r' ''Location'' = headers_get r ''Location''"
    by (simp add: r'_def r5_def headers_get_fill header_name_values)
  have sec: "security_headers r'"
    using csp_frame_ancestors
    by (simp add: security_headers_def r'_def r5_def headers_get_fill header_name_values)
  from run fields loc sec show ?thesis by blast
qed

lemma onRequest_no_fault_security_headers:
  assumes "getSession = Inr result"
    and "route pathname (map_option user result) next = Inr r"
    and "\<not> headers_immutable r"
  shows "security_headers (onRequest getSession pathname node_env next)"
  using assms(1,2) add_security_headers_mutable [OF assms(3), of node_env]
  by (auto simp add: onRequest_def)

text \<open>The response that the gate returns for a response \<open>r\<close> of the inner function.\<close>

lemma onRequest_of_route:
  assumes "route pathname (map_option user result) next = Inr r" "\<not> headers_immutable r"
  shows "status (onRequest (Inr result) pathname node_env next) = status r"
    and "body (onRequest (Inr result) pathname node_env next) = body r"
    and "headers_get (onRequest (Inr result) pathname node_env next) ''Location''
           = headers_get r ''Location''"
  using assms(1) add_security_headers_mutable [OF assms(2), of node_env]
  by (auto simp add: onRequest_def)

text \<open>
  Claim C1: every response of \<open>onRequest\<close> carries the fixed security headers, on
  every branch, the 500 of a caught fault included. The responses that do not come from
  the \<open>catch\<close> block carry them (\<open>onRequest_no_fault_security_headers\<close>). The
  500 does not: when the session look-up throws, for instance for a request of
  \<open>/dashboard\<close>, the response has status 500, no \<open>X-Frame-Options\<close> header, and
  so not the fixed security headers.
\<close>

theorem onRequest_fault_lacks_security_headers:
  "status (onRequest (Inl (Fault ''session lookup failed'')) ''/dashboard'' node_env next) = 500 \<and>
   headers_get (onRequest (Inl (Fault ''session lookup failed'')) ''/dashboard'' node_env next)
     ''X-Frame-Options'' = None \<and>
   \<not> security_headers
       (onRequest (Inl (Fault ''session lookup failed'')) ''/dashboard'' node_env next)"
  by (simp add: onRequest_def error_response_def new_Response_def security_headers_def
      headers_get_def headers_fill_def header_name_values)

text \<open>\<open>encodeURIComponent\<close> is injective: the encodings of two code units never
  begin alike.\<close>

lemma code_unit_less: "code_unit c < 256"
  by (simp add: code_unit_def)

lemma code_unit_inj: "code_unit a = code_unit b \<Longrightarrow> a = b"
  by (simp add: code_unit_def)

lemma upt_16: "[0..<16] = [0, 1, 2, 3, 4, 5, 6, 7, 8, 9, 10, 11, 12, 13, 14, 15::nat]"
  by code_simp

lemma less_16_cases:
  assumes "n < (16::nat)"
  shows "n \<in> set [0, 1, 2, 3, 4, 5, 6, 7, 8, 9, 10, 11, 12, 13, 14, 15]"
proof -
  from assms have "n \<in> set [0..<16]" by simp
  then show ?thesis unfolding upt_16 .
qed

lemma hex_value_digit: "n < 16 \<Longrightarrow> hex_value (hex_digit n) = n"
  using less_16_cases [of n]
  by (auto simp add: hex_value_def hex_digit_def in_range_def code_unit_def)

lemma hex_digit_inj:
  assumes "hex_digit m = hex_digit n" "m < 16" "n < 16"
  shows "m = n"
  using assms hex_value_digit [of m] hex_value_digit [of n] by metis

lemma percent_byte_inj:
  assumes "percent_byte a = percent_byte b" "a < 256" "b < 256"
  shows "a = b"
proof -
  from assms(2,3) have d: "a div 16 < 16" "b div 16 < 16" by simp_all
  have m: "a mod 16 < 16" "b mod 16 < 16" by simp_all
  from assms(1) have "hex_digit (a div 16) = hex_digit (b div 16)"
    "hex_digit (a mod 16) = hex_digit (b mod 16)"
    by (simp_all add: percent_byte_def)
  with d m have "a div 16 = b div 16" "a mod 16 = b mod 16"
    by (auto intro: hex_digit_inj)
  then show ?thesis by (metis div_mult_mod_eq)
qed

lemma unreserved_not_percent: "uri_unreserved c \<Longrightarrow> c \<noteq> CHR ''%''"
  by (auto simp add: uri_unreserved_def in_range_def code_unit_def)

lemma encode_unit_unreserved: "uri_unreserved c \<Longrightarrow> encode_unit c = [c]"
  by (simp add: encode_unit_def)

lemma encode_unit_reserved:
  "\<not> uri_unreserved c \<Longrightarrow>
     encode_unit c =
       (if code_unit c < 128 then percent_byte (code_unit c)
        else percent_byte (192 + code_unit c div 64) @ percent_byte (128 + code_unit c mod 64))"
  by (simp add: encode_unit_def utf8_bytes_def)

lemma encode_unit_prefix_free:
  assumes "encode_unit a @ P = encode_unit b @ Q"
  shows "a = b \<and> P = Q"
proof (cases "uri_unreserved a")
  case ua: True
  show ?thesis
  proof (cases "uri_unreserved b")
    case True
    with ua assms show ?thesis by (simp add: encode_unit_unreserved)
  next
    case False
    with ua assms unreserved_not_percent [of a] show ?thesis
      by (auto simp add: encode_unit_reserved encode_unit_unreserved percent_byte_def
          split: if_splits)
  qed
next
  case na: False
  show ?thesis
  proof (cases "uri_unreserved b")
    case True
    with na assms unreserved_not_percent [of b] show ?thesis
      by (auto simp add: encode_unit_reserved encode_unit_unreserved percent_byte_def
          split: if_splits)
  next
    case nb: False
    let ?x = "code_unit a" and ?y = "code_unit b"
    have lt: "?x < 256" "?y < 256" by (rule code_unit_less)+
    have pb: "percent_byte m @ R = percent_byte n @ S \<longleftrightarrow> percent_byte m = percent_byte n \<and> R = S"
      for m n R S
      by (auto simp add: percent_byte_def)
    consider (ll) "?x < 128" "?y < 128" | (lh) "?x < 128" "?y \<ge> 128"
      | (hl) "?x \<ge> 128" "?y < 128" | (hh) "?x \<ge> 128" "?y \<ge> 128"
      by linarith
    then show ?thesis
    proof cases
      case ll
      with na nb assms have "percent_byte ?x = percent_byte ?y \<and> P = Q"
        by (simp add: encode_unit_reserved pb)
      with lt show ?thesis by (auto dest: percent_byte_inj code_unit_inj)
    next
      case lh
      with na nb assms have "percent_byte ?x = percent_byte (192 + ?y div 64)"
        by (simp add: encode_unit_reserved pb)
      moreover have "192 + ?y div 64 < 256" using lt by simp
      ultimately have "?x = 192 + ?y div 64" using lt by (auto dest: percent_byte_inj)
      with lh show ?thesis by simp
    next
      case hl
      with na nb assms have "percent_byte (192 + ?x div 64) = percent_byte ?y"
        by (simp add: encode_unit_reserved pb)
      moreover have "192 + ?x div 64 < 256" using lt by simp
      ultimately have "192 + ?x div 64 = ?y" using lt by (auto dest: percent_byte_inj)
      with hl show ?thesis by simp
    next
      case hh
      with na nb assms have e: "percent_byte (192 + ?x div 64) = percent_byte (192 + ?y div 64)"
        "percent_byte (128 + ?x mod 64) = percent_byte (128 + ?y mod 64)" "P = Q"
        by (simp_all add: encode_unit_reserved pb)
      have "192 + ?x div 64 < 256" "192 + ?y div 64 < 256" using lt by simp_all
      with e(1) have "192 + ?x div 64 = 192 + ?y div 64" by (rule percent_byte_inj)
      moreover have "128 + ?x mod 64 < 256" "128 + ?y mod 64 < 256"
        by (simp_all add: less_trans [OF mod_less_divisor])
      with e(2) have "128 + ?x mod 64 = 128 + ?y mod 64" by (rule percent_byte_inj)
      ultimately have "?x div 64 = ?y div 64" "?x mod 64 = ?y mod 64" by simp_all
      then have "?x = ?y" by (metis div_mult_mod_eq)
      with e(3) show ?thesis by (simp add: code_unit_inj)
    qed
  qed
qed

lemma encode_unit_nonempty: "encode_unit c \<noteq> []"
  by (simp add: encode_unit_def utf8_bytes_def percent_byte_def)

lemma encodeURIComponent_inj:
  "encodeURIComponent p = encodeURIComponent q \<Longrightarrow> p = q"
proof (induction p arbitrary: q)
  case Nil
  then show ?case
    by (cases q) (simp_all add: encodeURIComponent_def encode_unit_nonempty)
next
  case (Cons a p)
  show ?case
  proof (cases q)
    case Nil
    with Cons.prems show ?thesis
      by (simp add: encodeURIComponent_def encode_unit_nonempty)
  next
    case (Cons b q')
    with Cons.prems have "encode_unit a @ encodeURIComponent p = encode_unit b @ encodeURIComponent q'"
      by (simp add: encodeURIComponent_def)
    then have "a = b" "encodeURIComponent p = encodeURIComponent q'"
      using encode_unit_prefix_free by blast+
    with Cons.IH Cons show ?thesis by simp
  qed
qed

lemma headers_get_Location_new:
  "headers_get (new_Response b st [(''Location'', v)]) ''Location'' = Some v"
  by (simp add: new_Response_def headers_get_def headers_fill_def)

lemma admin_prefix:
  "list_ex (\<lambda>path. startsWith pathname path) ADMIN_PATHS
     \<longleftrightarrow> prefix ''/admin'' pathname \<or> prefix ''/api/admin'' pathname"
  by (simp add: ADMIN_PATHS_def startsWith_def)

lemma admin_not_auth:
  assumes "prefix ''/admin'' pathname \<or> prefix ''/api/admin'' pathname"
  shows "pathname \<notin> set AUTH_PATHS"
  using assms by (auto simp add: AUTH_PATHS_def)

text \<open>
  Claim C2. For a path that starts with \<open>/admin\<close> or \<open>/api/admin\<close>: when no
  session resolves the response is a 302 whose \<open>Location\<close> is the sign-in path with
  the encoded request path as its \<open>redirect\<close> parameter, and the encoding determines
  the path; when the user's role is not \<open>admin\<close> the response is a 403 without a
  body; when the role is \<open>admin\<close> the request continues to the next handler: the
  inner function returns what \<open>next\<close> returns. The gate then answers with the
  response of \<open>next\<close> and the security headers set on it, or with the 500 when
  \<open>next\<close> throws or setting the headers throws.
\<close>

theorem onRequest_admin_paths:
  assumes admin: "prefix ''/admin'' pathname \<or> prefix ''/api/admin'' pathname"
  shows "status (onRequest (Inr None) pathname node_env next) = 302 \<and>
         headers_get (onRequest (Inr None) pathname node_env next) ''Location''
           = Some (''/connexion?redirect='' @ encodeURIComponent pathname) \<and>
         (\<forall>p. encodeURIComponent p = encodeURIComponent pathname \<longrightarrow> p = pathname) \<and>
         (role u \<noteq> Some ''admin'' \<longrightarrow>
            status (onRequest (Inr (Some \<lparr>user = u, session = s\<rparr>)) pathname node_env next) = 403 \<and>
            body (onRequest (Inr (Some \<lparr>user = u, session = s\<rparr>)) pathname node_env next) = None) \<and>
         (role u = Some ''admin'' \<longrightarrow>
            route pathname (Some u) next = next \<and>
            onRequest (Inr (Some \<lparr>user = u, session = s\<rparr>)) pathname node_env next
              = (case next of
                   Inl e \<Rightarrow> error_response
                 | Inr r \<Rightarrow>
                     (case add_security_headers node_env r of
                        Inl e \<Rightarrow> error_response
                      | Inr r' \<Rightarrow> r')))"
proof -
  note adm = admin [folded admin_prefix]
  note na = admin_not_auth [OF admin]
  let ?signin = "new_Response None 302
      [(''Location'', ''/connexion?redirect='' @ encodeURIComponent pathname)]"
  let ?denied = "new_Response None 403 [(''Content-Type'', ''text/html'')]"
  have r1: "route pathname (map_option user None) next = Inr ?signin"
    using adm na by (simp add: route_def)
  have r2: "route pathname (map_option user (Some \<lparr>user = u, session = s\<rparr>)) next = Inr ?denied"
    if "role u \<noteq> Some ''admin''"
    using adm na that by (simp add: route_def)
  have r3: "route pathname (Some u) next = next" if "role u = Some ''admin''"
    using adm na that by (simp add: route_def)
  have c1: "status (onRequest (Inr None) pathname node_env next) = 302"
    using onRequest_of_route(1) [OF r1] by simp
  have c2: "headers_get (onRequest (Inr None) pathname node_env next) ''Location''
      = Some (''/connexion?redirect='' @ encodeURIComponent pathname)"
    using onRequest_of_route(3) [OF r1] by (simp add: headers_get_Location_new)
  have c3: "\<forall>p. encodeURIComponent p = encodeURIComponent pathname \<longrightarrow> p = pathname"
    using encodeURIComponent_inj by blast
  have c4: "status (onRequest (Inr (Some \<lparr>user = u, session = s\<rparr>)) pathname node_env next) = 403 \<and>
      body (onRequest (Inr (Some \<lparr>user = u, session = s\<rparr>)) pathname node_env next) = None"
    if "role u \<noteq> Some ''admin''"
    using onRequest_of_route(1,2) [OF r2 [OF that]] by simp
  have c5: "onRequest (Inr (Some \<lparr>user = u, session = s\<rparr>)) pathname node_env next
      = (case next of
           Inl e \<Rightarrow> error_response
         | Inr r \<Rightarrow>
             (case add_security_headers node_env r of
                Inl e \<Rightarrow> error_response
              | Inr r' \<Rightarrow> r'))"
    if "role u = Some ''admin''"
    by (simp add: onRequest_def r3 [OF that])
  from c1 c2 c3 c4 c5 r3 show ?thesis by blast
qed

theorem onRequest_admin_paths_witness:
  "status (onRequest (Inr None) ''/admin'' None (Inr (new_Response (Some ''page'') 200 []))) = 302 \<and>
   headers_get (onRequest (Inr None) ''/admin'' None (Inr (new_Response (Some ''page'') 200 [])))
     ''Location'' = Some ''/connexion?redirect=%2Fadmin'' \<and>
   status (onRequest (Inr (Some \<lparr>user = \<lparr>role = Some ''user''\<rparr>, session = ''token''\<rparr>)) ''/admin''
     None (Inr (new_Response (Some ''page'') 200 []))) = 403 \<and>
   status (onRequest (Inr (Some \<lparr>user = \<lparr>role = Some ''admin''\<rparr>, session = ''token''\<rparr>)) ''/admin''
     None (Inr (new_Response (Some ''page'') 200 []))) = 200 \<and>
   status (onRequest (Inr (Some \<lparr>user = \<lparr>role = Some ''admin''\<rparr>, session = ''token''\<rparr>)) ''/admin''
     None (Inr ((new_Response None 302 [(''Location'', ''/admin/users'')])
                  \<lparr>headers_immutable := True\<rparr>))) = 500"
proof -
  have enc: "encodeURIComponent ''/admin'' = ''%2Fadmin''"
    by (simp add: encodeURIComponent_def encode_unit_def uri_unreserved_def in_range_def
        code_unit_def utf8_bytes_def percent_byte_def hex_digit_def)
  have h: "prefix ''/admin'' ''/admin'' \<or> prefix ''/api/admin'' ''/admin''" by simp
  let ?page = "new_Response (Some ''page'') 200 []"
  let ?redirect = "(new_Response None 302 [(''Location'', ''/admin/users'')])
      \<lparr>headers_immutable := True\<rparr>"
  obtain r' where page: "add_security_headers None ?page = Inr r'" "status r' = 200"
    using add_security_headers_mutable [of ?page None] by auto
  have redirect: "add_security_headers None ?redirect = Inl (Fault ''TypeError: immutable'')"
    by (simp add: add_security_headers_immutable)
  show ?thesis
    using onRequest_admin_paths [OF h, of None "Inr ?page" "\<lparr>role = Some ''user''\<rparr>" "''token''"]
      onRequest_admin_paths [OF h, of None "Inr ?page" "\<lparr>role = Some ''admin''\<rparr>" "''token''"]
      onRequest_admin_paths [OF h, of None "Inr ?redirect" "\<lparr>role = Some ''admin''\<rparr>"
        "''token''"]
    by (simp add: enc page redirect error_response_def)
qed

text \<open>
  Claim C5 says that a signed-in user is redirected from every path that begins with
  an auth page. That fails: \<open>/connexion/aide\<close> begins with \<open>/connexion\<close>, and a
  signed-in user who asks for it gets the page of the next handler, not a redirect.
\<close>

theorem onRequest_auth_page_longer_path_counterexample:
  "prefix ''/connexion'' ''/connexion/aide'' \<and>
   status (onRequest (Inr (Some \<lparr>user = \<lparr>role = Some ''user''\<rparr>, session = ''token''\<rparr>))
     ''/connexion/aide'' None (Inr (new_Response (Some ''page'') 200 []))) = 200 \<and>
   headers_get (onRequest (Inr (Some \<lparr>user = \<lparr>role = Some ''user''\<rparr>, session = ''token''\<rparr>))
     ''/connexion/aide'' None (Inr (new_Response (Some ''page'') 200 []))) ''Location'' = None"
proof -
  let ?page = "new_Response (Some ''page'') 200 []"
  let ?result = "Some \<lparr>user = \<lparr>role = Some ''user''\<rparr>, session = ''token''\<rparr>"
  have r: "route ''/connexion/aide'' (map_option user ?result) (Inr ?page) = Inr ?page"
    by (simp add: route_def AUTH_PATHS_def ADMIN_PATHS_def PRIVATE_PATHS_def startsWith_def)
  have m: "\<not> headers_immutable ?page" by simp
  have l: "headers_get ?page ''Location'' = None"
    by (simp add: new_Response_def headers_get_def)
  show ?thesis
    using onRequest_of_route(1) [OF r m, of None] onRequest_of_route(3) [OF r m, of None] l
    by simp
qed

text \<open>
  Claim C5, amended. For a request with a resolved user session whose path is exactly
  \<open>/connexion\<close>, \<open>/inscription\<close> or \<open>/mot-de-passe-oublie\<close>, the response is
  a 302 redirect to \<open>/dashboard\<close>.
\<close>

theorem onRequest_auth_pages:
  assumes "pathname = ''/connexion'' \<or> pathname = ''/inscription'' \<or>
           pathname = ''/mot-de-passe-oublie''"
  shows "status (onRequest (Inr (Some result)) pathname node_env next) = 302 \<and>
         headers_get (onRequest (Inr (Some result)) pathname node_env next) ''Location''
           = Some ''/dashboard''"
proof -
  from assms have "pathname \<in> set AUTH_PATHS" by (auto simp add: AUTH_PATHS_def)
  then have r: "route pathname (map_option user (Some result)) next
      = Inr (new_Response None 302 [(''Location'', ''/dashboard'')])"
    by (simp add: route_def)
  show ?thesis
    using onRequest_of_route(1) [OF r] onRequest_of_route(3) [OF r]
    by (simp add: headers_get_Location_new)
qed

theorem onRequest_auth_pages_witness:
  "status (onRequest (Inr (Some \<lparr>user = \<lparr>role = Some ''user''\<rparr>, session = ''token''\<rparr>))
     ''/connexion'' None (Inr (new_Response (Some ''page'') 200 []))) = 302 \<and>
   headers_get (onRequest (Inr (Some \<lparr>user = \<lparr>role = Some ''user''\<rparr>, session = ''token''\<rparr>))
     ''/connexion'' None (Inr (new_Response (Some ''page'') 200 []))) ''Location''
     = Some ''/dashboard''"
  using onRequest_auth_pages [of "''/connexion''"] by simp

end
